theory Spec2Isabelle
  imports Main
begin

section \<open>Strings and characters\<close>

text \<open>
  A JavaScript string is a sequence of UTF-16 code units. The model reads a
  \<^typ>\<open>string\<close> as such a sequence with every code unit below 256 (the Latin-1 range),
  one \<^typ>\<open>char\<close> per code unit, so \<^term>\<open>length\<close> is \<open>.length\<close>. The character
  classes below are the ones of ECMAScript restricted to that range.
\<close>

definition code :: "char \<Rightarrow> nat" where
  "code c = of_char c"

text \<open>\<open>\d\<close> of a regular expression: the ASCII digits.\<close>

definition isDigit :: "char \<Rightarrow> bool" where
  "isDigit c = (48 \<le> code c \<and> code c \<le> 57)"

text \<open>The class \<open>[a-z0-9]\<close> under the flag \<open>i\<close>: ASCII letters of both cases, and digits.\<close>

definition isAlnum :: "char \<Rightarrow> bool" where
  "isAlnum c = ((48 \<le> code c \<and> code c \<le> 57) \<or> (65 \<le> code c \<and> code c \<le> 90)
                \<or> (97 \<le> code c \<and> code c \<le> 122))"

text \<open>The word characters that \<open>\b\<close> looks at: \<open>[A-Za-z0-9_]\<close>.\<close>

definition isWordChar :: "char \<Rightarrow> bool" where
  "isWordChar c = (isAlnum c \<or> code c = 95)"

text \<open>
  \<open>\s\<close> and the characters \<open>trim\<close> strips: TAB, LF, VT, FF, CR, SPACE and NBSP are the
  white space and line terminators below 256.
\<close>

definition isSpace :: "char \<Rightarrow> bool" where
  "isSpace c = ((9 \<le> code c \<and> code c \<le> 13) \<or> code c = 32 \<or> code c = 160)"

text \<open>
  \<open>toLowerCase\<close> on one code unit: \<open>A-Z\<close> and the Latin-1 capitals \<open>U+00C0..U+00DE\<close>
  (without the multiplication sign \<open>U+00D7\<close>) move up by 32; nothing else changes.
\<close>

definition lowerChar :: "char \<Rightarrow> char" where
  "lowerChar c =
     (if (65 \<le> code c \<and> code c \<le> 90) \<or> (192 \<le> code c \<and> code c \<le> 222 \<and> code c \<noteq> 215)
      then char_of (code c + 32) else c)"

definition toLowerCase :: "string \<Rightarrow> string" where
  "toLowerCase s = map lowerChar s"

section \<open>levenshtein\<close>

text \<open>
  The matrix has \<open>b.length + 1\<close> rows of \<open>a.length + 1\<close> cells. Every write of the
  source is inside the matrix, so the list update never meets an index out of range.
\<close>

type_synonym matrix = "nat list list"

definition cell :: "matrix \<Rightarrow> nat \<Rightarrow> nat \<Rightarrow> nat" where
  "cell m j i = m ! j ! i"

definition set_cell :: "matrix \<Rightarrow> nat \<Rightarrow> nat \<Rightarrow> nat \<Rightarrow> matrix" where
  "set_cell m j i v = m[j := (m ! j)[i := v]]"

text \<open>\<open>for (let i = 0; i <= a.length; i++) matrix[0][i] = i;\<close>\<close>

function init_first_row :: "nat \<Rightarrow> nat \<Rightarrow> matrix \<Rightarrow> matrix" where
  "init_first_row i n m = (if i \<le> n then init_first_row (i + 1) n (set_cell m 0 i i) else m)"
  by pat_completeness auto
termination
  by (relation "measure (\<lambda>(i, n, m). n + 1 - i)") auto

text \<open>\<open>for (let j = 0; j <= b.length; j++) matrix[j][0] = j;\<close>\<close>

function init_first_col :: "nat \<Rightarrow> nat \<Rightarrow> matrix \<Rightarrow> matrix" where
  "init_first_col j n m = (if j \<le> n then init_first_col (j + 1) n (set_cell m j 0 j) else m)"
  by pat_completeness auto
termination
  by (relation "measure (\<lambda>(j, n, m). n + 1 - j)") auto

definition substitutionCost :: "string \<Rightarrow> string \<Rightarrow> nat \<Rightarrow> nat \<Rightarrow> nat" where
  "substitutionCost a b i j = (if lowerChar (a ! (i - 1)) = lowerChar (b ! (j - 1)) then 0 else 1)"

text \<open>The inner loop, \<open>for (let i = 1; i <= a.length; i++)\<close>, on row \<open>j\<close>.\<close>

function fill_row :: "string \<Rightarrow> string \<Rightarrow> nat \<Rightarrow> nat \<Rightarrow> matrix \<Rightarrow> matrix" where
  "fill_row a b j i m =
     (if i \<le> length a
      then fill_row a b j (i + 1)
             (set_cell m j i
                (min (cell m j (i - 1) + 1)
                   (min (cell m (j - 1) i + 1)
                        (cell m (j - 1) (i - 1) + substitutionCost a b i j))))
      else m)"
  by pat_completeness auto
termination
  by (relation "measure (\<lambda>(a, b, j, i, m). length a + 1 - i)") auto

text \<open>The outer loop, \<open>for (let j = 1; j <= b.length; j++)\<close>.\<close>

function fill_rows :: "string \<Rightarrow> string \<Rightarrow> nat \<Rightarrow> matrix \<Rightarrow> matrix" where
  "fill_rows a b j m = (if j \<le> length b then fill_rows a b (j + 1) (fill_row a b j 1 m) else m)"
  by pat_completeness auto
termination
  by (relation "measure (\<lambda>(a, b, j, m). length b + 1 - j)") auto

definition levenshtein :: "string \<Rightarrow> string \<Rightarrow> nat" where
  "levenshtein a b =
     (if a = [] then length b
      else if b = [] then length a
      else let matrix0 = replicate (length b + 1) (replicate (length a + 1) 0);
               matrix1 = init_first_row 0 (length a) matrix0;
               matrix2 = init_first_col 0 (length b) matrix1;
               matrix3 = fill_rows a b 1 matrix2
           in cell matrix3 (length b) (length a))"

subsection \<open>The recurrence the matrix holds\<close>

text \<open>
  \<open>dist a b j i\<close> is the value the loops leave in \<open>matrix[j][i]\<close>: the distance between
  the first \<open>i\<close> characters of \<open>a\<close> and the first \<open>j\<close> characters of \<open>b\<close>.
  \<open>shaped\<close> says that the matrix has its \<open>b.length + 1\<close> rows of \<open>a.length + 1\<close> cells.
\<close>

fun dist :: "string \<Rightarrow> string \<Rightarrow> nat \<Rightarrow> nat \<Rightarrow> nat" where
  "dist a b 0 i = i"
| "dist a b (Suc j) 0 = Suc j"
| "dist a b (Suc j) (Suc i) =
     min (dist a b (Suc j) i + 1)
       (min (dist a b j (Suc i) + 1)
            (dist a b j i + substitutionCost a b (Suc i) (Suc j)))"

definition shaped :: "string \<Rightarrow> string \<Rightarrow> matrix \<Rightarrow> bool" where
  "shaped a b m = (length m = length b + 1 \<and> (\<forall>j \<le> length b. length (m ! j) = length a + 1))"

section \<open>splitIntoItems\<close>

text \<open>\<open>trim\<close> removes white space and line terminators from both ends.\<close>

definition trim :: "string \<Rightarrow> string" where
  "trim s = rev (dropWhile isSpace (rev (dropWhile isSpace s)))"

text \<open>
  \<open>text.split(/\r?\n/)\<close>: the pieces between the separators, empty pieces included; the
  first argument is the piece read so far. A carriage return is part of the separator
  only when a line feed follows it.
\<close>

fun split_crlf :: "string \<Rightarrow> string \<Rightarrow> string list" where
  "split_crlf cur [] = [cur]"
| "split_crlf cur [c] = (if c = CHR 0x0A then [cur, []] else [cur @ [c]])"
| "split_crlf cur (c # d # cs) =
     (if c = CHR 0x0A then cur # split_crlf [] (d # cs)
      else if c = CHR 0x0D \<and> d = CHR 0x0A then cur # split_crlf [] cs
      else split_crlf (cur @ [c]) (d # cs))"

text \<open>\<open>text.split(/,|;|\n/)\<close>\<close>

fun split_sep :: "string \<Rightarrow> string \<Rightarrow> string list" where
  "split_sep cur [] = [cur]"
| "split_sep cur (c # cs) =
     (if c = CHR '','' \<or> c = CHR '';'' \<or> c = CHR 0x0A then cur # split_sep [] cs
      else split_sep (cur @ [c]) cs)"

text \<open>\<open>.map(l => l.trim()).filter(Boolean)\<close>: a string is falsy when it is empty.\<close>

definition trimmedNonEmpty :: "string list \<Rightarrow> string list" where
  "trimmedNonEmpty ls = filter (\<lambda>l. l \<noteq> []) (map trim ls)"

definition splitIntoItems :: "string \<Rightarrow> string list" where
  "splitIntoItems text =
     (if text = [] then []
      else let lines = trimmedNonEmpty (split_crlf [] text)
           in if length lines \<le> 1 then trimmedNonEmpty (split_sep [] text) else lines)"

section \<open>findBrandPositions\<close>

text \<open>
  \<open>item.match(/^\s*(\d+)[\.)]\s*/)\<close>, reduced to its first group (the digits) or
  \<open>None\<close> for \<open>null\<close>. Both stars are greedy and neither can give a character back
  to what follows it (a white space is no digit, a digit is neither \<open>.\<close> nor \<open>)\<close>), so
  the match is: all leading white space, the longest run of digits, which must not be
  empty, then one of \<open>.\<close> and \<open>)\<close>.
\<close>

definition numMatch :: "string \<Rightarrow> string option" where
  "numMatch item =
     (let rest = dropWhile isSpace item; digits = takeWhile isDigit rest;
          after = dropWhile isDigit rest
      in case after of
           [] \<Rightarrow> None
         | c # _ \<Rightarrow> if digits \<noteq> [] \<and> (c = CHR ''.'' \<or> c = CHR '')'') then Some digits else None)"

text \<open>
  \<open>parseInt(digits, 10)\<close> on a non-empty string of decimal digits. The value is kept
  exact; JavaScript rounds it to a double from \<open>2^53\<close> on.
\<close>

definition parseInt :: "string \<Rightarrow> nat" where
  "parseInt ds = foldl (\<lambda>n c. 10 * n + (code c - 48)) 0 ds"

text \<open>
  Case folding of a regular expression with the flag \<open>i\<close> and without \<open>u\<close> compares
  the upper-case forms of two code units, when that form is one code unit. Below 256:
  \<open>a-z\<close> and \<open>U+00E0..U+00FE\<close> (without the division sign) move down by 32; the sharp s
  has a two-unit upper case and keeps itself; the upper cases of \<open>U+00FF\<close> and of the
  micro sign lie above 255 and nothing else below 256 shares them, so these two keep
  themselves here as well.
\<close>

definition canonChar :: "char \<Rightarrow> char" where
  "canonChar c =
     (if (97 \<le> code c \<and> code c \<le> 122) \<or> (224 \<le> code c \<and> code c \<le> 254 \<and> code c \<noteq> 247)
      then char_of (code c - 32) else c)"

text \<open>\<open>\b\<close> at position \<open>p\<close>: exactly one of the two neighbours is a word character.\<close>

definition wordBoundary :: "string \<Rightarrow> nat \<Rightarrow> bool" where
  "wordBoundary s p = ((0 < p \<and> isWordChar (s ! (p - 1))) \<noteq> (p < length s \<and> isWordChar (s ! p)))"

text \<open>
  \<open>escapeForRegex\<close> puts a backslash before each of \<open>. * + ? ^ $ { } ( ) | [ ] \\<close>, which
  are all the characters with a meaning in a pattern, so \<open>\b${escapeForRegex(brand)}\b\<close>
  with the flag \<open>i\<close> matches at \<open>k\<close> when the brand stands there, letter case apart,
  between two word boundaries. \<open>regex.test(item)\<close> looks for such a \<open>k\<close>.
\<close>

definition matchesAt :: "string \<Rightarrow> string \<Rightarrow> nat \<Rightarrow> bool" where
  "matchesAt brand item k =
     (k + length brand \<le> length item \<and> wordBoundary item k \<and>
      map canonChar (take (length brand) (drop k item)) = map canonChar brand \<and>
      wordBoundary item (k + length brand))"

definition regexTest :: "string \<Rightarrow> string \<Rightarrow> bool" where
  "regexTest brand item = list_ex (matchesAt brand item) [0 ..< length item + 1]"

text \<open>\<open>s.includes(sub)\<close>\<close>

fun includesStr :: "string \<Rightarrow> string \<Rightarrow> bool" where
  "includesStr [] sub = (sub = [])"
| "includesStr (c # cs) sub = (take (length sub) (c # cs) = sub \<or> includesStr cs sub)"

text \<open>\<open>item.split(/\s+/)\<close>: a separator is a longest run of white space.\<close>

function split_ws :: "string \<Rightarrow> string \<Rightarrow> string list" where
  "split_ws cur [] = [cur]"
| "split_ws cur (c # cs) =
     (if isSpace c then cur # split_ws [] (dropWhile isSpace cs) else split_ws (cur @ [c]) cs)"
  by pat_completeness auto
termination
  by (relation "measure (\<lambda>(cur, s). length s)") (auto simp: length_dropWhile_le less_Suc_eq_le)

text \<open>\<open>t.replace(/[^a-z0-9]/gi, '')\<close>\<close>

definition stripNonAlnum :: "string \<Rightarrow> string" where
  "stripNonAlnum t = filter isAlnum t"

text \<open>
  \<open>Math.max(1, Math.floor(brandClean.length * 0.25))\<close>; a quarter of a length is exact in
  a double, and its floor is the integer quotient.
\<close>

definition threshold :: "string \<Rightarrow> nat" where
  "threshold brandClean = max 1 (length brandClean div 4)"

text \<open>
  The loop over the tokens of item \<open>i\<close>: an empty token is skipped (\<open>continue\<close>), the
  first token within the distance pushes \<open>i + 1\<close> and ends the loop (\<open>break\<close>).
\<close>

fun scanTokens :: "string list \<Rightarrow> string \<Rightarrow> nat \<Rightarrow> nat list \<Rightarrow> nat list" where
  "scanTokens [] brandClean i positions = positions"
| "scanTokens (t # ts) brandClean i positions =
     (if t = [] then scanTokens ts brandClean i positions
      else let tokenLower = toLowerCase t;
               dist = levenshtein tokenLower (toLowerCase brandClean)
           in if dist \<le> max 2 (threshold brandClean) then positions @ [i + 1]
              else scanTokens ts brandClean i positions)"

text \<open>
  \<open>if (currentRank && currentRank > 0) positions.push(currentRank); else positions.push(i + 1);\<close>
\<close>

definition pushRank :: "nat \<Rightarrow> nat \<Rightarrow> nat list \<Rightarrow> nat list" where
  "pushRank currentRank i positions =
     (if currentRank \<noteq> 0 \<and> currentRank > 0 then positions @ [currentRank] else positions @ [i + 1])"

text \<open>
  One turn of the loop over the items, on the pair of \<open>currentRank\<close> and \<open>positions\<close>.
\<close>

definition itemStep :: "string \<Rightarrow> nat \<Rightarrow> string \<Rightarrow> nat \<times> nat list \<Rightarrow> nat \<times> nat list" where
  "itemStep brand i item st =
     (let brandLower = toLowerCase brand;
          positions = snd st;
          itemLower = toLowerCase item;
          currentRank = (case numMatch item of Some ds \<Rightarrow> parseInt ds | None \<Rightarrow> fst st)
      in if regexTest brand item then (currentRank, pushRank currentRank i positions)
         else if includesStr itemLower brandLower then (currentRank, pushRank currentRank i positions)
         else let tokens = map stripNonAlnum (split_ws [] item);
                  brandClean = stripNonAlnum brandLower
              in (currentRank, scanTokens tokens brandClean i positions))"

text \<open>\<open>for (let i = 0; i < items.length; i++)\<close>\<close>

function itemsLoop :: "string \<Rightarrow> string list \<Rightarrow> nat \<Rightarrow> nat \<times> nat list \<Rightarrow> nat \<times> nat list" where
  "itemsLoop brand items i st =
     (if i < length items then itemsLoop brand items (i + 1) (itemStep brand i (items ! i) st) else st)"
  by pat_completeness auto
termination
  by (relation "measure (\<lambda>(brand, items, i, st). length items - i)") auto

definition findBrandPositions :: "string list \<Rightarrow> string \<Rightarrow> nat list" where
  "findBrandPositions items brand = snd (itemsLoop brand items 0 (0, []))"

text \<open>
  The three tests of the loop body, as conditions on one item: the loop over the tokens
  pushes when one of the tokens is not empty and within the distance.
\<close>

definition fuzzyMatch :: "string list \<Rightarrow> string \<Rightarrow> bool" where
  "fuzzyMatch tokens brandClean =
     list_ex (\<lambda>t. t \<noteq> [] \<and>
                levenshtein (toLowerCase t) (toLowerCase brandClean) \<le> max 2 (threshold brandClean))
       tokens"

definition itemMatches :: "string \<Rightarrow> string \<Rightarrow> bool" where
  "itemMatches brand item =
     (regexTest brand item
      \<or> includesStr (toLowerCase item) (toLowerCase brand)
      \<or> fuzzyMatch (map stripNonAlnum (split_ws [] item)) (stripNonAlnum (toLowerCase brand)))"

section \<open>JavaScript values\<close>

text \<open>
  A response payload is a tree of JSON values. An object is the list of its properties
  in the order \<open>JSON.stringify\<close> visits them, each key once; a number is an integer.
\<close>

datatype jsval =
    JUndefined
  | JNull
  | JBool bool
  | JNum int
  | JStr string
  | JArr "jsval list"
  | JObj "(string \<times> jsval) list"

datatype jserror = TypeError

text \<open>What \<open>if (v)\<close>, \<open>!v\<close>, \<open>v && w\<close> and \<open>v || w\<close> test.\<close>

fun truthy :: "jsval \<Rightarrow> bool" where
  "truthy JUndefined = False"
| "truthy JNull = False"
| "truthy (JBool b) = b"
| "truthy (JNum n) = (n \<noteq> 0)"
| "truthy (JStr s) = (s \<noteq> [])"
| "truthy (JArr xs) = True"
| "truthy (JObj kvs) = True"

text \<open>\<open>typeof v === 'string'\<close> and \<open>Array.isArray(v)\<close>\<close>

fun isStr :: "jsval \<Rightarrow> bool" where
  "isStr (JStr s) = True"
| "isStr v = False"

fun isArray :: "jsval \<Rightarrow> bool" where
  "isArray (JArr xs) = True"
| "isArray v = False"

text \<open>
  \<open>v.k\<close> for the property names the source reads other than \<open>length\<close> and \<open>0\<close>:
  \<open>data\<close>, \<open>output_text\<close>, \<open>output\<close>, \<open>content\<close>, \<open>text\<close>, \<open>choices\<close>, \<open>message\<close>,
  \<open>candidates\<close>, \<open>parts\<close> and \<open>result\<close>. Reading a property of \<open>undefined\<close> or \<open>null\<close>
  throws; a boolean, a number, a string and an array have none of these properties.
\<close>

fun getProp :: "jsval \<Rightarrow> string \<Rightarrow> jserror + jsval" where
  "getProp JUndefined k = Inl TypeError"
| "getProp JNull k = Inl TypeError"
| "getProp (JObj kvs) k = Inr (case map_of kvs k of Some v \<Rightarrow> v | None \<Rightarrow> JUndefined)"
| "getProp v k = Inr JUndefined"

text \<open>\<open>v.length\<close>\<close>

fun getLength :: "jsval \<Rightarrow> jserror + jsval" where
  "getLength JUndefined = Inl TypeError"
| "getLength JNull = Inl TypeError"
| "getLength (JObj kvs) = Inr (case map_of kvs ''length'' of Some v \<Rightarrow> v | None \<Rightarrow> JUndefined)"
| "getLength (JArr xs) = Inr (JNum (int (length xs)))"
| "getLength (JStr s) = Inr (JNum (int (length s)))"
| "getLength v = Inr JUndefined"

text \<open>\<open>v[0]\<close>\<close>

fun getFirst :: "jsval \<Rightarrow> jserror + jsval" where
  "getFirst JUndefined = Inl TypeError"
| "getFirst JNull = Inl TypeError"
| "getFirst (JObj kvs) = Inr (case map_of kvs ''0'' of Some v \<Rightarrow> v | None \<Rightarrow> JUndefined)"
| "getFirst (JArr xs) = Inr (case xs of [] \<Rightarrow> JUndefined | x # _ \<Rightarrow> x)"
| "getFirst (JStr s) = Inr (case s of [] \<Rightarrow> JUndefined | c # _ \<Rightarrow> JStr [c])"
| "getFirst v = Inr JUndefined"

text \<open>
  The value of \<open>v.k\<close> and of \<open>v[0]\<close> where reading them does not throw, for use in
  statements; \<open>undefined\<close> stands in where the read would throw.
\<close>

definition fld :: "jsval \<Rightarrow> string \<Rightarrow> jsval" where
  "fld v k = (case getProp v k of Inl e \<Rightarrow> JUndefined | Inr x \<Rightarrow> x)"

definition firstOf :: "jsval \<Rightarrow> jsval" where
  "firstOf v = (case getFirst v of Inl e \<Rightarrow> JUndefined | Inr x \<Rightarrow> x)"

text \<open>An exception leaves the rest of the block unevaluated.\<close>

definition andThen :: "jserror + 'a \<Rightarrow> ('a \<Rightarrow> jserror + 'b) \<Rightarrow> jserror + 'b" where
  "andThen r f = (case r of Inl e \<Rightarrow> Inl e | Inr v \<Rightarrow> f v)"

fun mapM :: "('a \<Rightarrow> jserror + 'b) \<Rightarrow> 'a list \<Rightarrow> jserror + 'b list" where
  "mapM f [] = Inr []"
| "mapM f (x # xs) = andThen (f x) (\<lambda>y. andThen (mapM f xs) (\<lambda>ys. Inr (y # ys)))"

subsection \<open>Conversion to strings\<close>

fun joinWith :: "string \<Rightarrow> string list \<Rightarrow> string" where
  "joinWith sep [] = []"
| "joinWith sep [s] = s"
| "joinWith sep (s # t # ss) = s @ sep @ joinWith sep (t # ss)"

definition digitChar :: "nat \<Rightarrow> char" where
  "digitChar d = char_of (48 + d)"

fun showNat :: "nat \<Rightarrow> string" where
  "showNat n = (if n < 10 then [digitChar n] else showNat (n div 10) @ [digitChar (n mod 10)])"

text \<open>The decimal form of an integer, as \<open>String(n)\<close> gives it below \<open>10^21\<close>.\<close>

definition showInt :: "int \<Rightarrow> string" where
  "showInt n = (if n < 0 then CHR ''-'' # showNat (nat (- n)) else showNat (nat n))"

text \<open>
  \<open>String(v)\<close>, and in it \<open>Array.prototype.join\<close>, which turns \<open>undefined\<close> and \<open>null\<close>
  into the empty string.
\<close>

fun toStr :: "jsval \<Rightarrow> string" where
  "toStr JUndefined = ''undefined''"
| "toStr JNull = ''null''"
| "toStr (JBool b) = (if b then ''true'' else ''false'')"
| "toStr (JNum n) = showInt n"
| "toStr (JStr s) = s"
| "toStr (JArr xs) =
     joinWith '','' (map (\<lambda>x. if x = JUndefined \<or> x = JNull then [] else toStr x) xs)"
| "toStr (JObj kvs) = ''[object Object]''"

definition joinArray :: "jsval list \<Rightarrow> string \<Rightarrow> string" where
  "joinArray xs sep =
     joinWith sep (map (\<lambda>x. if x = JUndefined \<or> x = JNull then [] else toStr x) xs)"

subsection \<open>JSON.stringify\<close>

definition hexDigit :: "nat \<Rightarrow> char" where
  "hexDigit d = (if d < 10 then char_of (48 + d) else char_of (87 + d))"

definition quoteChar :: "char \<Rightarrow> string" where
  "quoteChar c =
     (if c = CHR 0x22 then [CHR 0x5C, CHR 0x22]
      else if c = CHR 0x5C then [CHR 0x5C, CHR 0x5C]
      else if c = CHR 0x08 then [CHR 0x5C, CHR ''b'']
      else if c = CHR 0x0C then [CHR 0x5C, CHR ''f'']
      else if c = CHR 0x0A then [CHR 0x5C, CHR ''n'']
      else if c = CHR 0x0D then [CHR 0x5C, CHR ''r'']
      else if c = CHR 0x09 then [CHR 0x5C, CHR ''t'']
      else if code c < 32
        then [CHR 0x5C, CHR ''u'', CHR ''0'', CHR ''0'', hexDigit (code c div 16), hexDigit (code c mod 16)]
      else [c])"

definition quote :: "string \<Rightarrow> string" where
  "quote s = CHR 0x22 # concat (map quoteChar s) @ [CHR 0x22]"

text \<open>
  \<open>JSON.stringify(v)\<close> without indentation; \<open>None\<close> is the result \<open>undefined\<close>. In an
  array \<open>undefined\<close> is written \<open>null\<close>, in an object a property holding it is left out.
\<close>

fun stringify :: "jsval \<Rightarrow> string option" where
  "stringify JUndefined = None"
| "stringify JNull = Some ''null''"
| "stringify (JBool b) = Some (if b then ''true'' else ''false'')"
| "stringify (JNum n) = Some (showInt n)"
| "stringify (JStr s) = Some (quote s)"
| "stringify (JArr xs) =
     Some (CHR ''['' #
           joinWith '','' (map (\<lambda>x. case stringify x of None \<Rightarrow> ''null'' | Some t \<Rightarrow> t) xs)
           @ '']'')"
| "stringify (JObj kvs) =
     Some (CHR 0x7B #
           joinWith '',''
             (concat (map (\<lambda>(k, v). case stringify v of None \<Rightarrow> []
                                      | Some t \<Rightarrow> [quote k @ CHR '':'' # t]) kvs))
           @ [CHR 0x7D])"

definition JSON_stringify :: "jsval \<Rightarrow> jsval" where
  "JSON_stringify v = (case stringify v of None \<Rightarrow> JUndefined | Some s \<Rightarrow> JStr s)"

section \<open>extractTextFromApiResponse\<close>

text \<open>
  The block under \<open>if (data.output && Array.isArray(data.output) && data.output.length)\<close>.
  \<open>Some v\<close> is \<open>return v\<close>, \<open>None\<close> is falling through to the next probe.
\<close>

definition outputProbe :: "jsval \<Rightarrow> jserror + jsval option" where
  "outputProbe data =
     andThen (getProp data ''output'') (\<lambda>output.
       case output of
         JArr xs \<Rightarrow>
           (case xs of
              [] \<Rightarrow> Inr None
            | o1 # _ \<Rightarrow>
                if isStr o1 then Inr (Some o1)
                else andThen (getProp o1 ''content'') (\<lambda>content.
                  if truthy content then
                    (if isStr content then Inr (Some content)
                     else case content of
                            JArr cs \<Rightarrow>
                              andThen
                                (mapM (\<lambda>c. andThen (getProp c ''text'')
                                               (\<lambda>t. Inr (if truthy t then t else c))) cs)
                                (\<lambda>mapped. Inr (Some (JStr (joinArray mapped [CHR 0x0A]))))
                          | _ \<Rightarrow> Inr None)
                  else Inr None))
       | _ \<Rightarrow> Inr None)"

text \<open>The block under \<open>if (data.choices && data.choices.length)\<close>.\<close>

definition choicesProbe :: "jsval \<Rightarrow> jserror + jsval option" where
  "choicesProbe data =
     andThen (getProp data ''choices'') (\<lambda>choices.
       if \<not> truthy choices then Inr None
       else andThen (getLength choices) (\<lambda>len.
         if \<not> truthy len then Inr None
         else andThen (getFirst choices) (\<lambda>ch.
           andThen (getProp ch ''text'') (\<lambda>text.
             if truthy text then Inr (Some text)
             else andThen (getProp ch ''message'') (\<lambda>message.
               if \<not> truthy message then Inr None
               else andThen (getProp message ''content'') (\<lambda>content.
                 if truthy content then Inr (Some content) else Inr None))))))"

text \<open>\<open>const data = resp.data || resp;\<close>\<close>

definition dataOf :: "jsval \<Rightarrow> jserror + jsval" where
  "dataOf resp = andThen (getProp resp ''data'') (\<lambda>d. Inr (if truthy d then d else resp))"

text \<open>The body of the \<open>try\<close> block: \<open>Inl\<close> is an exception thrown inside it.\<close>

definition extractBody :: "jsval \<Rightarrow> jserror + jsval" where
  "extractBody resp =
     (if \<not> truthy resp then Inr (JStr [])
      else andThen (dataOf resp) (\<lambda>data.
        if isStr data then Inr data
        else andThen (getProp data ''output_text'') (\<lambda>output_text.
          if truthy output_text then Inr output_text
          else andThen (outputProbe data) (\<lambda>r.
            case r of
              Some v \<Rightarrow> Inr v
            | None \<Rightarrow>
                andThen (choicesProbe data) (\<lambda>r.
                  case r of
                    Some v \<Rightarrow> Inr v
                  | None \<Rightarrow> Inr (JSON_stringify data))))))"

text \<open>\<open>try { ... } catch (e) { return ''; }\<close>\<close>

definition extractTextFromApiResponse :: "jsval \<Rightarrow> jsval" where
  "extractTextFromApiResponse resp = (case extractBody resp of Inl e \<Rightarrow> JStr [] | Inr v \<Rightarrow> v)"

section \<open>The controller: check\<close>








text \<open>
  What \<open>check\<close> answers from the positions: \<open>mentioned\<close>, \<open>positions\<close> and
  \<open>position\<close> of its JSON answer.
\<close>

record MatchResult =
  mentioned :: jsval
  positions :: "nat list"
  position :: jsval

definition matchResult :: "string list \<Rightarrow> string \<Rightarrow> MatchResult" where
  "matchResult items brand =
     (let ps = findBrandPositions items brand
      in \<lparr> mentioned = (if length ps > 0 then JStr ''Yes'' else JStr ''No''),
           positions = ps,
           position = (if length ps > 0 then JNum (int (ps ! 0)) else JNull) \<rparr>)"

section \<open>Properties of levenshtein\<close>

declare init_first_row.simps [simp del] init_first_col.simps [simp del]
  fill_row.simps [simp del] fill_rows.simps [simp del]

lemma shaped_set_cell:
  "shaped a b m \<Longrightarrow> j \<le> length b \<Longrightarrow> shaped a b (set_cell m j i v)"
  by (auto simp: shaped_def set_cell_def nth_list_update)

lemma cell_set_cell:
  "shaped a b m \<Longrightarrow> j \<le> length b \<Longrightarrow> i \<le> length a \<Longrightarrow> j' \<le> length b \<Longrightarrow>
   cell (set_cell m j i v) j' i' = (if j' = j \<and> i' = i then v else cell m j' i')"
  by (auto simp: shaped_def set_cell_def cell_def nth_list_update)

lemma init_first_row_inv:
  "shaped a b m \<Longrightarrow> n = length a \<Longrightarrow>
   shaped a b (init_first_row i n m) \<and>
   (\<forall>j' i'. j' \<le> length b \<longrightarrow>
      cell (init_first_row i n m) j' i' = (if j' = 0 \<and> i \<le> i' \<and> i' \<le> n then i' else cell m j' i'))"
proof (induction i n m rule: init_first_row.induct)
  case (1 i n m)
  show ?case
  proof (cases "i \<le> n")
    case True
    have sh: "shaped a b (set_cell m 0 i i)"
      using "1.prems" by (simp add: shaped_set_cell)
    note ih = "1.IH" [OF True sh "1.prems"(2)]
    have unf: "init_first_row i n m = init_first_row (i + 1) n (set_cell m 0 i i)"
      using True by (subst init_first_row.simps) simp
    show ?thesis
      unfolding unf using ih True "1.prems"
      by (auto simp: cell_set_cell)
  next
    case False
    then have "init_first_row i n m = m"
      by (subst init_first_row.simps) simp
    with False "1.prems" show ?thesis by auto
  qed
qed

lemma init_first_col_inv:
  "shaped a b m \<Longrightarrow> n = length b \<Longrightarrow>
   shaped a b (init_first_col j n m) \<and>
   (\<forall>j' i'. j' \<le> length b \<longrightarrow>
      cell (init_first_col j n m) j' i' = (if i' = 0 \<and> j \<le> j' then j' else cell m j' i'))"
proof (induction j n m rule: init_first_col.induct)
  case (1 j n m)
  show ?case
  proof (cases "j \<le> n")
    case True
    have sh: "shaped a b (set_cell m j 0 j)"
      using "1.prems" True by (simp add: shaped_set_cell)
    note ih = "1.IH" [OF True sh "1.prems"(2)]
    have unf: "init_first_col j n m = init_first_col (j + 1) n (set_cell m j 0 j)"
      using True by (subst init_first_col.simps) simp
    show ?thesis
      unfolding unf using ih True "1.prems"
      by (auto simp: cell_set_cell)
  next
    case False
    then have "init_first_col j n m = m"
      by (subst init_first_col.simps) simp
    with False "1.prems" show ?thesis by auto
  qed
qed

lemma fill_row_inv:
  "shaped a b m \<Longrightarrow> 1 \<le> j \<Longrightarrow> j \<le> length b \<Longrightarrow> 1 \<le> i \<Longrightarrow>
   (\<forall>i' \<le> length a. cell m (j - 1) i' = dist a b (j - 1) i') \<Longrightarrow>
   (\<forall>i' < i. cell m j i' = dist a b j i') \<Longrightarrow>
   shaped a b (fill_row a b j i m) \<and>
   (\<forall>j' i'. j' \<le> length b \<longrightarrow> i' \<le> length a \<longrightarrow>
      cell (fill_row a b j i m) j' i' = (if j' = j then dist a b j i' else cell m j' i'))"
proof (induction a b j i m rule: fill_row.induct)
  case (1 a b j i m)
  show ?case
  proof (cases "i \<le> length a")
    case True
    define v where "v = min (cell m j (i - 1) + 1)
                   (min (cell m (j - 1) i + 1)
                        (cell m (j - 1) (i - 1) + substitutionCost a b i j))"
    obtain j0 i0 where j: "j = Suc j0" and i: "i = Suc i0"
      using "1.prems"(2,4) by (cases j; cases i) auto
    have v: "v = dist a b j i"
      using "1.prems" True unfolding v_def j i by simp
    have sh: "shaped a b (set_cell m j i v)"
      using "1.prems" by (simp add: shaped_set_cell)
    have row: "\<forall>i' \<le> length a. cell (set_cell m j i v) (j - 1) i' = dist a b (j - 1) i'"
      using "1.prems" True by (simp add: cell_set_cell j)
    have filled: "\<forall>i' < i + 1. cell (set_cell m j i v) j i' = dist a b j i'"
      using "1.prems" True v by (auto simp: cell_set_cell less_Suc_eq)
    have ih: "shaped a b (fill_row a b j (i + 1) (set_cell m j i v)) \<and>
      (\<forall>j' i'. j' \<le> length b \<longrightarrow> i' \<le> length a \<longrightarrow>
         cell (fill_row a b j (i + 1) (set_cell m j i v)) j' i' =
           (if j' = j then dist a b j i' else cell (set_cell m j i v) j' i'))"
      using "1.IH" [folded v_def, OF True sh "1.prems"(2,3) _ row filled] by simp
    have unf: "fill_row a b j i m = fill_row a b j (i + 1) (set_cell m j i v)"
      using True unfolding v_def by (subst fill_row.simps) simp
    show ?thesis
      unfolding unf using ih True "1.prems"(1,3)
      by (auto simp: cell_set_cell)
  next
    case False
    then have unf: "fill_row a b j i m = m"
      by (subst fill_row.simps) simp
    have "cell m j i' = dist a b j i'" if "i' \<le> length a" for i'
      using "1.prems"(6) that False by auto
    with "1.prems"(1) show ?thesis unfolding unf by auto
  qed
qed

lemma fill_rows_inv:
  "shaped a b m \<Longrightarrow> 1 \<le> j \<Longrightarrow>
   (\<forall>j' i'. j' < j \<longrightarrow> j' \<le> length b \<longrightarrow> i' \<le> length a \<longrightarrow> cell m j' i' = dist a b j' i') \<Longrightarrow>
   (\<forall>j' \<le> length b. cell m j' 0 = dist a b j' 0) \<Longrightarrow>
   (\<forall>j' i'. j' \<le> length b \<longrightarrow> i' \<le> length a \<longrightarrow>
      cell (fill_rows a b j m) j' i' = dist a b j' i')"
proof (induction a b j m rule: fill_rows.induct)
  case (1 a b j m)
  show ?case
  proof (cases "j \<le> length b")
    case True
    have prev: "\<forall>i' \<le> length a. cell m (j - 1) i' = dist a b (j - 1) i'"
      using "1.prems" True by auto
    have col: "\<forall>i' < 1. cell m j i' = dist a b j i'"
      using "1.prems" True by auto
    note row = fill_row_inv [OF "1.prems"(1,2) True _ prev col, simplified]
    have sh: "shaped a b (fill_row a b j 1 m)"
      using row by simp
    have below: "\<forall>j' i'. j' < j + 1 \<longrightarrow> j' \<le> length b \<longrightarrow> i' \<le> length a \<longrightarrow>
        cell (fill_row a b j 1 m) j' i' = dist a b j' i'"
      using row "1.prems"(3) by (auto simp: less_Suc_eq)
    have col0: "\<forall>j' \<le> length b. cell (fill_row a b j 1 m) j' 0 = dist a b j' 0"
      using row "1.prems"(4) by auto
    have unf: "fill_rows a b j m = fill_rows a b (j + 1) (fill_row a b j 1 m)"
      using True by (subst fill_rows.simps) simp
    show ?thesis
      unfolding unf using "1.IH" [OF True sh _ below col0] by simp
  next
    case False
    then have "fill_rows a b j m = m"
      by (subst fill_rows.simps) simp
    with False "1.prems"(3) show ?thesis by auto
  qed
qed

lemma dist_first_col: "dist a b j 0 = j"
  by (cases j) simp_all

lemma levenshtein_dist: "levenshtein a b = dist a b (length b) (length a)"
proof (cases "a = [] \<or> b = []")
  case True
  then show ?thesis by (auto simp: levenshtein_def dist_first_col)
next
  case False
  define m0 :: matrix where "m0 = replicate (length b + 1) (replicate (length a + 1) 0)"
  define m1 where "m1 = init_first_row 0 (length a) m0"
  define m2 where "m2 = init_first_col 0 (length b) m1"
  have sh0: "shaped a b m0"
    by (simp add: shaped_def m0_def less_Suc_eq_le del: replicate.simps)
  note r1 = init_first_row_inv [OF sh0 refl, of 0, folded m1_def]
  have sh1: "shaped a b m1" using r1 by simp
  note r2 = init_first_col_inv [OF sh1 refl, of 0, folded m2_def]
  have sh2: "shaped a b m2" using r2 by simp
  have row0: "\<forall>j' i'. j' < 1 \<longrightarrow> j' \<le> length b \<longrightarrow> i' \<le> length a \<longrightarrow> cell m2 j' i' = dist a b j' i'"
    using r1 r2 by auto
  have col0: "\<forall>j' \<le> length b. cell m2 j' 0 = dist a b j' 0"
    using r2 by (simp add: dist_first_col)
  have "cell (fill_rows a b 1 m2) (length b) (length a) = dist a b (length b) (length a)"
    using fill_rows_inv [OF sh2 _ row0 col0] by simp
  then show ?thesis
    using False by (simp add: levenshtein_def Let_def m0_def m1_def m2_def)
qed

lemma substitutionCost_sym: "substitutionCost a b i j = substitutionCost b a j i"
  by (auto simp: substitutionCost_def)

lemma dist_sym: "dist a b j i = dist b a i j"
proof (induction a b j i rule: dist.induct)
  case (1 a b i)
  show ?case by (simp add: dist_first_col)
next
  case (2 a b j)
  show ?case by simp
next
  case (3 a b j i)
  then show ?case
    by (simp add: substitutionCost_sym [of a b] min.commute min.left_commute)
qed

text \<open>
  C9: the distance is symmetric, \<open>levenshtein a b = levenshtein b a\<close> for all strings,
  and the distance from the empty string to \<open>s\<close> is the length of \<open>s\<close>.
\<close>

theorem levenshtein_symmetric_and_empty:
  "levenshtein a b = levenshtein b a \<and> levenshtein [] s = length s"
proof
  show "levenshtein a b = levenshtein b a"
    by (simp add: levenshtein_dist dist_sym [of a b])
  show "levenshtein [] s = length s"
    by (simp add: levenshtein_def)
qed


section \<open>Properties of findBrandPositions\<close>

declare itemsLoop.simps [simp del]

lemma toLowerCase_length: "length (toLowerCase s) = length s"
  by (simp add: toLowerCase_def)

lemma toLowerCase_empty: "(toLowerCase s = []) = (s = [])"
  by (simp add: toLowerCase_def)

lemma levenshtein_empty_right: "levenshtein s [] = length s"
  by (simp add: levenshtein_def)

lemma effective_threshold: "max 2 (threshold bc) = max 2 (length bc div 4)"
  by (simp add: threshold_def)

lemma scanTokens_empty_brand:
  "scanTokens tokens [] i ps =
     (if \<exists>t \<in> set tokens. t \<noteq> [] \<and> length t \<le> 2 then ps @ [i + 1] else ps)"
  by (induction tokens)
     (auto simp: Let_def toLowerCase_length toLowerCase_empty levenshtein_empty_right
                 threshold_def toLowerCase_def)

lemma scanTokens_at_most_one:
  "scanTokens ts bc i ps = ps \<or> scanTokens ts bc i ps = ps @ [i + 1]"
  by (induction ts) (auto simp: Let_def)

lemma itemStep_at_most_one:
  "\<exists>extra. length extra \<le> 1 \<and> snd (itemStep brand i item st) = snd st @ extra"
proof -
  have "snd (itemStep brand i item st) = snd st
      \<or> (\<exists>p. snd (itemStep brand i item st) = snd st @ [p])"
    using scanTokens_at_most_one
      [of "map stripNonAlnum (split_ws [] item)" "stripNonAlnum (toLowerCase brand)" i "snd st"]
    by (auto simp: itemStep_def Let_def pushRank_def)
  then show ?thesis
  proof
    assume "snd (itemStep brand i item st) = snd st"
    then have "length ([]::nat list) \<le> 1 \<and> snd (itemStep brand i item st) = snd st @ []" by simp
    then show ?thesis by blast
  next
    assume "\<exists>p. snd (itemStep brand i item st) = snd st @ [p]"
    then obtain p where "snd (itemStep brand i item st) = snd st @ [p]" ..
    then have "length [p] \<le> 1 \<and> snd (itemStep brand i item st) = snd st @ [p]" by simp
    then show ?thesis by blast
  qed
qed

lemma itemsLoop_snoc:
  "i \<le> length items \<Longrightarrow>
   itemsLoop brand (items @ [x]) i st = itemStep brand (length items) x (itemsLoop brand items i st)"
proof (induction "length items - i" arbitrary: i st)
  case 0
  then have i: "i = length items" by simp
  have stop: "itemsLoop brand items (length items) st = st"
    by (subst itemsLoop.simps) simp
  have last: "itemsLoop brand (items @ [x]) (length items + 1) st' = st'" for st'
    by (subst itemsLoop.simps) simp
  have "itemsLoop brand (items @ [x]) (length items) st =
      itemsLoop brand (items @ [x]) (length items + 1) (itemStep brand (length items) x st)"
    by (subst itemsLoop.simps) simp
  then show ?case
    unfolding i by (simp only: stop last)
next
  case (Suc n)
  then have lt: "i < length items" by simp
  have ih: "itemsLoop brand (items @ [x]) (i + 1) st' =
      itemStep brand (length items) x (itemsLoop brand items (i + 1) st')" for st'
    using Suc.hyps(1) [of "i + 1" st'] Suc.hyps(2) lt by simp
  show ?case
    using lt ih
    by (subst itemsLoop.simps, subst (2) itemsLoop.simps) (simp add: nth_append)
qed

lemma findBrandPositions_snoc:
  "findBrandPositions (items @ [x]) brand =
     snd (itemStep brand (length items) x (itemsLoop brand items 0 (0, [])))"
  by (simp add: findBrandPositions_def itemsLoop_snoc)

lemma findBrandPositions_step:
  "\<exists>extra. length extra \<le> 1 \<and>
     findBrandPositions (take (Suc k) items) brand = findBrandPositions (take k items) brand @ extra"
proof (cases "k < length items")
  case True
  then have split: "take (Suc k) items = take k items @ [items ! k]"
    by (simp add: take_Suc_conv_app_nth)
  have "findBrandPositions (take (Suc k) items) brand =
      snd (itemStep brand (length (take k items)) (items ! k)
             (itemsLoop brand (take k items) 0 (0, [])))"
    unfolding split by (rule findBrandPositions_snoc)
  moreover have "\<exists>extra. length extra \<le> 1 \<and>
      snd (itemStep brand (length (take k items)) (items ! k)
             (itemsLoop brand (take k items) 0 (0, [])))
        = snd (itemsLoop brand (take k items) 0 (0, [])) @ extra"
    by (rule itemStep_at_most_one)
  ultimately show ?thesis
    by (simp only: findBrandPositions_def)
next
  case False
  then have "length ([]::nat list) \<le> 1 \<and>
     findBrandPositions (take (Suc k) items) brand = findBrandPositions (take k items) brand @ []"
    by simp
  then show ?thesis by blast
qed

lemma findBrandPositions_length: "length (findBrandPositions items brand) \<le> length items"
proof (induction items rule: rev_induct)
  case Nil
  show ?case by (simp add: findBrandPositions_def itemsLoop.simps)
next
  case (snoc x items)
  obtain extra where "length extra \<le> 1"
    and "snd (itemStep brand (length items) x (itemsLoop brand items 0 (0, [])))
           = snd (itemsLoop brand items 0 (0, [])) @ extra"
    using itemStep_at_most_one by blast
  with snoc show ?case
    by (simp add: findBrandPositions_snoc) (simp add: findBrandPositions_def)
qed

text \<open>
  C10: every item contributes at most one entry to the positions, however often and in
  however many ways the brand occurs in it: the positions of the first \<open>k + 1\<close> items are
  those of the first \<open>k\<close> items followed by at most one more; so there are at most as
  many positions as items.
\<close>

theorem one_position_per_item:
  "(\<exists>extra. length extra \<le> 1 \<and>
      findBrandPositions (take (Suc k) items) brand = findBrandPositions (take k items) brand @ extra)
   \<and> length (findBrandPositions items brand) \<le> length items"
  using findBrandPositions_step findBrandPositions_length by blast

text \<open>
  C5: for the items \<open>1. Acme Corp\<close>, \<open>2. Other Co\<close>, \<open>Acme again\<close> and the brand
  \<open>Acme\<close> the positions are \<open>[1, 2]\<close>: the first item records its rank 1, the second
  sets the rank to 2 and records nothing, the third has no marker and records the rank
  2 that was left, not its index 3.
\<close>

theorem numbered_list_carry_over:
  "findBrandPositions [''1. Acme Corp'', ''2. Other Co'', ''Acme again''] ''Acme'' = [1, 2]
   \<and> itemStep ''Acme'' 0 ''1. Acme Corp'' (0, []) = (1, [1])
   \<and> itemStep ''Acme'' 1 ''2. Other Co'' (1, [1]) = (2, [1])
   \<and> itemStep ''Acme'' 2 ''Acme again'' (2, [1]) = (2, [1, 2])"
  by code_simp

text \<open>
  C4: a token is accepted when its distance to the cleaned brand is at most
  \<open>max(2, floor(len * 0.25))\<close>, \<open>len\<close> the length of the cleaned brand. For the brand
  \<open>Acme\<close>, of cleaned length 4, the bound is 2, the token \<open>Acne\<close> is at distance 1,
  and it is accepted.
\<close>

theorem fuzzy_threshold:
  "scanTokens (t # ts) bc i ps =
     (if t = [] then scanTokens ts bc i ps
      else if levenshtein (toLowerCase t) (toLowerCase bc) \<le> max 2 (length bc div 4)
        then ps @ [i + 1]
      else scanTokens ts bc i ps)
   \<and> stripNonAlnum (toLowerCase ''Acme'') = ''acme''
   \<and> map stripNonAlnum (split_ws [] ''Acne'') = [''Acne'']
   \<and> levenshtein (toLowerCase ''Acne'') (toLowerCase ''acme'') = 1
   \<and> max 2 (length ''acme'' div 4) = 2
   \<and> findBrandPositions [''Acne''] ''Acme'' = [1]"
proof -
  have "scanTokens (t # ts) bc i ps =
     (if t = [] then scanTokens ts bc i ps
      else if levenshtein (toLowerCase t) (toLowerCase bc) \<le> max 2 (length bc div 4)
        then ps @ [i + 1]
      else scanTokens ts bc i ps)"
    by (simp add: Let_def effective_threshold)
  moreover have "stripNonAlnum (toLowerCase ''Acme'') = ''acme''" by code_simp
  moreover have "map stripNonAlnum (split_ws [] ''Acne'') = [''Acne'']" by code_simp
  moreover have "levenshtein (toLowerCase ''Acne'') (toLowerCase ''acme'') = 1" by code_simp
  moreover have "max 2 (length ''acme'' div 4) = (2::nat)" by simp
  moreover have "findBrandPositions [''Acne''] ''Acme'' = [1]" by code_simp
  ultimately show ?thesis by blast
qed

text \<open>
  C1, as the code has it: a brand whose cleaned form is empty does not switch the fuzzy
  step off. The distance of a token to the empty string is the length of the token, and
  the bound is 2, so the step records the item exactly when one of its cleaned tokens
  has one or two characters.
\<close>

theorem empty_brand_fuzzy:
  assumes "stripNonAlnum (toLowerCase brand) = []"
  shows "scanTokens tokens (stripNonAlnum (toLowerCase brand)) i ps =
           (if \<exists>t \<in> set tokens. t \<noteq> [] \<and> length t \<le> 2 then ps @ [i + 1] else ps)"
  unfolding assms by (rule scanTokens_empty_brand)

text \<open>The brand \<open>?!\<close>, on an item with a one-letter token and on one without short tokens.\<close>

theorem empty_brand_fuzzy_witness:
  "stripNonAlnum (toLowerCase ''?!'') = []
   \<and> scanTokens [''a'', ''list''] (stripNonAlnum (toLowerCase ''?!'')) 4 [2] = [2, 5]
   \<and> scanTokens [''long'', ''words''] (stripNonAlnum (toLowerCase ''?!'')) 4 [2] = [2]"
proof -
  have h: "stripNonAlnum (toLowerCase ''?!'') = []" by code_simp
  show ?thesis
    using h empty_brand_fuzzy [OF h, of "[''a'', ''list'']" 4 "[2]"]
      empty_brand_fuzzy [OF h, of "[''long'', ''words'']" 4 "[2]"]
    by simp
qed

text \<open>
  The fuzzy step is not switched off for a brand without letters and digits: for the
  brand \<open>!\<close> the item \<open>hi\<close> fails the exact and the substring step, and the token
  \<open>hi\<close>, two characters from the empty string, records position 1.
\<close>

theorem empty_brand_fuzzy_counterexample:
  "stripNonAlnum (toLowerCase ''!'') = []
   \<and> \<not> regexTest ''!'' ''hi''
   \<and> \<not> includesStr (toLowerCase ''hi'') (toLowerCase ''!'')
   \<and> scanTokens (map stripNonAlnum (split_ws [] ''hi'')) (stripNonAlnum (toLowerCase ''!'')) 0 [] = [1]
   \<and> findBrandPositions [''hi''] ''!'' = [1]"
  by code_simp

lemma itemStep_unranked:
  assumes "numMatch item = None"
  shows "fst (itemStep brand i item (0, ps)) = 0
       \<and> (snd (itemStep brand i item (0, ps)) = ps \<or> snd (itemStep brand i item (0, ps)) = ps @ [i + 1])"
  using assms scanTokens_at_most_one
      [of "map stripNonAlnum (split_ws [] item)" "stripNonAlnum (toLowerCase brand)" i ps]
  by (auto simp: itemStep_def Let_def pushRank_def)

lemma itemsLoop_unranked:
  "\<forall>k. i \<le> k \<and> k < length items \<longrightarrow> numMatch (items ! k) = None \<Longrightarrow>
   sorted_wrt (<) ps \<Longrightarrow> \<forall>p \<in> set ps. 1 \<le> p \<and> p \<le> i \<Longrightarrow>
   sorted_wrt (<) (snd (itemsLoop brand items i (0, ps))) \<and>
   (\<forall>p \<in> set (snd (itemsLoop brand items i (0, ps))). 1 \<le> p \<and> p \<le> max i (length items))"
proof (induction "length items - i" arbitrary: i ps)
  case 0
  then have "itemsLoop brand items i (0, ps) = (0, ps)"
    by (subst itemsLoop.simps) simp
  with 0 show ?case by auto
next
  case (Suc n)
  then have lt: "i < length items" by simp
  then have nm: "numMatch (items ! i) = None"
    using Suc.prems(1) by simp
  obtain ps' where step: "itemStep brand i (items ! i) (0, ps) = (0, ps')"
    and ps': "ps' = ps \<or> ps' = ps @ [i + 1]"
    using itemStep_unranked [OF nm, of brand i ps]
    by (cases "itemStep brand i (items ! i) (0, ps)") auto
  have sorted': "sorted_wrt (<) ps'"
    using ps' Suc.prems(2,3) by (auto simp: sorted_wrt_append less_Suc_eq_le)
  have bound': "\<forall>p \<in> set ps'. 1 \<le> p \<and> p \<le> i + 1"
    using ps' Suc.prems(3) by (auto simp: le_Suc_eq)
  have rest: "\<forall>k. i + 1 \<le> k \<and> k < length items \<longrightarrow> numMatch (items ! k) = None"
    using Suc.prems(1) by simp
  have n: "n = length items - (i + 1)"
    using Suc.hyps(2) by simp
  have unf: "itemsLoop brand items i (0, ps) = itemsLoop brand items (i + 1) (0, ps')"
    using lt step by (subst itemsLoop.simps) simp
  show ?case
    unfolding unf using Suc.hyps(1) [OF n rest sorted' bound'] lt by (simp add: max_def)
qed

lemma scanTokens_fuzzyMatch:
  "scanTokens tokens bc i ps = (if fuzzyMatch tokens bc then ps @ [i + 1] else ps)"
  by (induction tokens) (auto simp: fuzzyMatch_def Let_def)

lemma itemStep_unranked_matches:
  assumes "numMatch item = None"
  shows "itemStep brand i item (0, ps) = (0, if itemMatches brand item then ps @ [i + 1] else ps)"
  using assms
  by (auto simp: itemStep_def Let_def pushRank_def itemMatches_def scanTokens_fuzzyMatch)

lemma itemsLoop_unranked_matches:
  "\<forall>item \<in> set items. numMatch item = None \<Longrightarrow>
   itemsLoop brand items 0 (0, []) =
     (0, map Suc (filter (\<lambda>i. itemMatches brand (items ! i)) [0 ..< length items]))"
proof (induction items rule: rev_induct)
  case Nil
  show ?case by (subst itemsLoop.simps) simp
next
  case (snoc x items)
  have ih: "itemsLoop brand items 0 (0, []) =
     (0, map Suc (filter (\<lambda>i. itemMatches brand (items ! i)) [0 ..< length items]))"
    using snoc by simp
  have nm: "numMatch x = None"
    using snoc.prems by simp
  have same: "filter (\<lambda>i. itemMatches brand ((items @ [x]) ! i)) [0 ..< length items]
      = filter (\<lambda>i. itemMatches brand (items ! i)) [0 ..< length items]"
    by (rule filter_cong) (simp_all add: nth_append)
  have "itemsLoop brand (items @ [x]) 0 (0, []) =
      itemStep brand (length items) x (itemsLoop brand items 0 (0, []))"
    by (rule itemsLoop_snoc) simp
  also have "\<dots> = (0, if itemMatches brand x
        then map Suc (filter (\<lambda>i. itemMatches brand (items ! i)) [0 ..< length items]) @ [length items + 1]
        else map Suc (filter (\<lambda>i. itemMatches brand (items ! i)) [0 ..< length items]))"
    unfolding ih by (rule itemStep_unranked_matches [OF nm])
  also have "\<dots> = (0, map Suc (filter (\<lambda>i. itemMatches brand ((items @ [x]) ! i))
                                 [0 ..< length (items @ [x])]))"
    by (simp add: same)
  finally show ?case .
qed

text \<open>
  C3, as the code has it: when no item starts with a numbered-list marker, the positions
  are exactly the 1-based indices of the items that match (by the exact, the substring
  or the fuzzy test), in the order of the items; so they ascend strictly and lie
  between 1 and the number of items.
\<close>

theorem positions_ascending_unranked:
  assumes "\<forall>item \<in> set items. numMatch item = None"
  shows "findBrandPositions items brand =
           map Suc (filter (\<lambda>i. itemMatches brand (items ! i)) [0 ..< length items])
       \<and> sorted_wrt (<) (findBrandPositions items brand)
       \<and> (\<forall>p \<in> set (findBrandPositions items brand). 1 \<le> p \<and> p \<le> length items)"
proof -
  have eq: "findBrandPositions items brand =
           map Suc (filter (\<lambda>i. itemMatches brand (items ! i)) [0 ..< length items])"
    using itemsLoop_unranked_matches [OF assms, of brand] by (simp add: findBrandPositions_def)
  have "\<forall>k. 0 \<le> k \<and> k < length items \<longrightarrow> numMatch (items ! k) = None"
    using assms by simp
  from itemsLoop_unranked [OF this, of "[]" brand] eq
  show ?thesis by (simp add: findBrandPositions_def)
qed

text \<open>Three items without markers; the third is found by the fuzzy step.\<close>

theorem positions_ascending_unranked_witness:
  "numMatch ''Acme Corp'' = None \<and> numMatch ''Other Co'' = None \<and> numMatch ''we like acne'' = None
   \<and> itemMatches ''Acme'' ''Acme Corp'' \<and> \<not> itemMatches ''Acme'' ''Other Co''
   \<and> itemMatches ''Acme'' ''we like acne''
   \<and> findBrandPositions [''Acme Corp'', ''Other Co'', ''we like acne''] ''Acme'' = [1, 3]
   \<and> sorted_wrt (<) (findBrandPositions [''Acme Corp'', ''Other Co'', ''we like acne''] ''Acme'')"
proof -
  have n: "numMatch ''Acme Corp'' = None \<and> numMatch ''Other Co'' = None
      \<and> numMatch ''we like acne'' = None"
    by code_simp
  then have h: "\<forall>item \<in> set [''Acme Corp'', ''Other Co'', ''we like acne'']. numMatch item = None"
    by simp
  have m: "itemMatches ''Acme'' ''Acme Corp'' \<and> \<not> itemMatches ''Acme'' ''Other Co''
      \<and> itemMatches ''Acme'' ''we like acne''"
    by code_simp
  have f: "map Suc (filter (\<lambda>i. itemMatches ''Acme'' ([''Acme Corp'', ''Other Co'', ''we like acne''] ! i))
             [0 ..< length [''Acme Corp'', ''Other Co'', ''we like acne'']]) = [1, 3]"
    by code_simp
  have v: "findBrandPositions [''Acme Corp'', ''Other Co'', ''we like acne''] ''Acme'' = [1, 3]"
    using positions_ascending_unranked [OF h, of "''Acme''"] f by simp
  show ?thesis
    using n m v positions_ascending_unranked [OF h, of "''Acme''"] by blast
qed

text \<open>
  Under markers the positions need not ascend: the items \<open>2. Acme\<close>, \<open>1. Acme\<close>
  give \<open>[2, 1]\<close>.
\<close>

theorem positions_ascending_counterexample:
  "findBrandPositions [''2. Acme'', ''1. Acme''] ''Acme'' = [2, 1]
   \<and> \<not> sorted (findBrandPositions [''2. Acme'', ''1. Acme''] ''Acme'')"
proof -
  have "findBrandPositions [''2. Acme'', ''1. Acme''] ''Acme'' = [2, 1]" by code_simp
  then show ?thesis by simp
qed

section \<open>Properties of splitIntoItems\<close>

text \<open>
  C7: when the split on line breaks, trimmed and without the empty lines, leaves at most
  one line, the items are the pieces of the text between commas, semicolons and line
  feeds, trimmed and without the empty ones. \<open>Acme, Globex, Initech\<close> gives exactly
  its three names, the empty text gives no item.
\<close>

theorem segmentation_fallback:
  "(length (trimmedNonEmpty (split_crlf [] text)) \<le> 1 \<longrightarrow>
      splitIntoItems text = trimmedNonEmpty (split_sep [] text))
   \<and> splitIntoItems ''Acme, Globex, Initech'' = [''Acme'', ''Globex'', ''Initech'']
   \<and> splitIntoItems [] = []"
proof -
  have "splitIntoItems text = trimmedNonEmpty (split_sep [] text)"
    if "length (trimmedNonEmpty (split_crlf [] text)) \<le> 1"
  proof (cases "text = []")
    case True
    then show ?thesis by (simp add: splitIntoItems_def trimmedNonEmpty_def trim_def)
  next
    case False
    with that show ?thesis by (simp add: splitIntoItems_def Let_def)
  qed
  moreover have "splitIntoItems ''Acme, Globex, Initech'' = [''Acme'', ''Globex'', ''Initech'']"
    by code_simp
  moreover have "splitIntoItems [] = []"
    by (simp add: splitIntoItems_def)
  ultimately show ?thesis by blast
qed

text \<open>A single line with a semicolon and a comma.\<close>

theorem segmentation_fallback_witness:
  "length (trimmedNonEmpty (split_crlf [] ''a; b,c'')) \<le> 1
   \<and> splitIntoItems ''a; b,c'' = trimmedNonEmpty (split_sep [] ''a; b,c'')
   \<and> splitIntoItems ''a; b,c'' = [''a'', ''b'', ''c'']"
proof -
  have h: "length (trimmedNonEmpty (split_crlf [] ''a; b,c'')) \<le> 1" by code_simp
  have v: "trimmedNonEmpty (split_sep [] ''a; b,c'') = [''a'', ''b'', ''c'']" by code_simp
  show ?thesis
    using h v segmentation_fallback [of "''a; b,c''"] by simp
qed

section \<open>Properties of the answer of check\<close>

text \<open>
  C6, as the code has it: \<open>mentioned\<close> is the string \<open>Yes\<close> when there is a position
  and the string \<open>No\<close> when there is none; \<open>position\<close> is the first position, or
  \<open>null\<close> when there is none; over no items the answer is \<open>No\<close>, \<open>[]\<close> and \<open>null\<close>.
\<close>

theorem match_result:
  "mentioned (matchResult items brand) =
      JStr (if positions (matchResult items brand) \<noteq> [] then ''Yes'' else ''No'')
   \<and> position (matchResult items brand) =
      (case positions (matchResult items brand) of [] \<Rightarrow> JNull | p # _ \<Rightarrow> JNum (int p))
   \<and> positions (matchResult items brand) = findBrandPositions items brand
   \<and> matchResult [] brand = \<lparr> mentioned = JStr ''No'', positions = [], position = JNull \<rparr>"
proof -
  have "findBrandPositions [] brand = []"
    by (simp add: findBrandPositions_def itemsLoop.simps)
  then show ?thesis
    by (cases "findBrandPositions items brand") (simp_all add: matchResult_def Let_def)
qed

text \<open>
  \<open>mentioned\<close> is never a boolean: over no items it is the string \<open>No\<close>, which is
  not \<open>false\<close> and which a condition takes for true.
\<close>

theorem match_result_counterexample:
  "mentioned (matchResult [] ''Acme'') = JStr ''No''
   \<and> mentioned (matchResult [] ''Acme'') \<noteq> JBool False
   \<and> truthy (mentioned (matchResult [] ''Acme''))
   \<and> mentioned (matchResult [''Acme''] ''Acme'') = JStr ''Yes''
   \<and> mentioned (matchResult [''Acme''] ''Acme'') \<noteq> JBool True"
  by code_simp

section \<open>Properties of the text extraction\<close>

lemma andThen_Inr [simp]: "andThen (Inr v) f = f v"
  by (simp add: andThen_def)

lemma andThen_Inl [simp]: "andThen (Inl e) f = Inl e"
  by (simp add: andThen_def)

lemma getProp_truthy: "truthy v \<Longrightarrow> getProp v k = Inr (fld v k)"
  by (cases v) (simp_all add: fld_def)

lemma getProp_Inr: "getProp v k = Inr x \<Longrightarrow> x = fld v k"
  by (simp add: fld_def)

lemma getFirst_truthy: "truthy v \<Longrightarrow> getFirst v = Inr (firstOf v)"
  by (cases v) (simp_all add: firstOf_def)

lemma getLength_truthy: "truthy v \<Longrightarrow> \<exists>l. getLength v = Inr l"
  by (cases v) simp_all

lemma fld_truthy_source: "truthy (fld v k) \<Longrightarrow> truthy v"
  by (cases v) (simp_all add: fld_def)

lemma stringify_None: "(stringify v = None) = (v = JUndefined)"
  by (cases v) simp_all

lemma JSON_stringify_isStr: "v \<noteq> JUndefined \<Longrightarrow> isStr (JSON_stringify v)"
  by (cases "stringify v") (simp_all add: JSON_stringify_def stringify_None)

lemma mapM_Inr:
  "\<forall>x \<in> set xs. \<exists>y. f x = Inr y \<Longrightarrow> mapM f xs = Inr (map (\<lambda>x. projr (f x)) xs)"
  by (induction xs) auto

lemma outputProbe_result:
  "outputProbe data = Inr (Some v) \<Longrightarrow> isStr v"
  unfolding outputProbe_def
  by (auto simp: andThen_def split: sum.splits jsval.splits list.splits if_splits)

lemma choicesProbe_result:
  "choicesProbe data = Inr (Some v) \<Longrightarrow>
   v = fld (firstOf (fld data ''choices'')) ''text''
   \<or> v = fld (fld (firstOf (fld data ''choices'')) ''message'') ''content''"
  unfolding choicesProbe_def
  by (auto simp: andThen_def fld_def firstOf_def split: sum.splits if_splits)

lemma dataOf_truthy:
  "truthy resp \<Longrightarrow> dataOf resp = Inr (if truthy (fld resp ''data'') then fld resp ''data'' else resp)"
  by (simp add: dataOf_def getProp_truthy)

lemma dataOf_is_truthy: "truthy resp \<Longrightarrow> dataOf resp = Inr data \<Longrightarrow> truthy data"
  by (auto simp: dataOf_truthy split: if_splits)

lemma extractBody_result:
  assumes "extractBody resp = Inr r" and "\<not> isStr r"
  shows "r = fld (if truthy (fld resp ''data'') then fld resp ''data'' else resp) ''output_text''
       \<or> r = fld (firstOf (fld (if truthy (fld resp ''data'') then fld resp ''data'' else resp) ''choices'')) ''text''
       \<or> r = fld (fld (firstOf (fld (if truthy (fld resp ''data'') then fld resp ''data'' else resp) ''choices'')) ''message'') ''content''"
proof -
  define data where "data = (if truthy (fld resp ''data'') then fld resp ''data'' else resp)"
  have t: "truthy resp"
    using assms by (auto simp: extractBody_def split: if_splits)
  have d: "dataOf resp = Inr data"
    using t by (simp add: dataOf_truthy data_def)
  have td: "truthy data"
    using t d by (rule dataOf_is_truthy)
  have ot: "getProp data ''output_text'' = Inr (fld data ''output_text'')"
    using td by (rule getProp_truthy)
  show ?thesis
  proof (cases "isStr data \<or> truthy (fld data ''output_text'')")
    case True
    then show ?thesis
      using assms t d ot unfolding data_def [symmetric]
      by (auto simp: extractBody_def split: if_splits)
  next
    case False
    then have body: "andThen (outputProbe data) (\<lambda>r.
            case r of
              Some v \<Rightarrow> Inr v
            | None \<Rightarrow>
                andThen (choicesProbe data) (\<lambda>r.
                  case r of
                    Some v \<Rightarrow> Inr v
                  | None \<Rightarrow> Inr (JSON_stringify data))) = Inr r"
      using assms(1) t d ot by (simp add: extractBody_def)
    have nu: "data \<noteq> JUndefined" using td by auto
    show ?thesis
      using body assms(2) outputProbe_result [of data] choicesProbe_result [of data]
        JSON_stringify_isStr [OF nu]
      unfolding data_def [symmetric]
      by (auto simp: andThen_def split: sum.splits option.splits)
  qed
qed









lemma choicesProbe_truthy:
  "choicesProbe data = Inr (Some v) \<Longrightarrow> truthy v"
  unfolding choicesProbe_def
  by (auto simp: andThen_def split: sum.splits if_splits)

lemma extractBody_truthy:
  assumes "extractBody resp = Inr r" and "\<not> isStr r"
  shows "truthy r"
proof -
  have t: "truthy resp"
    using assms by (auto simp: extractBody_def split: if_splits)
  obtain data where d: "dataOf resp = Inr data"
    using t by (simp add: dataOf_truthy)
  have td: "truthy data"
    using t d by (rule dataOf_is_truthy)
  have ot: "getProp data ''output_text'' = Inr (fld data ''output_text'')"
    using td by (rule getProp_truthy)
  show ?thesis
  proof (cases "isStr data \<or> truthy (fld data ''output_text'')")
    case True
    then show ?thesis
      using assms t d ot by (auto simp: extractBody_def split: if_splits)
  next
    case False
    then have body: "andThen (outputProbe data) (\<lambda>r.
            case r of
              Some v \<Rightarrow> Inr v
            | None \<Rightarrow>
                andThen (choicesProbe data) (\<lambda>r.
                  case r of
                    Some v \<Rightarrow> Inr v
                  | None \<Rightarrow> Inr (JSON_stringify data))) = Inr r"
      using assms(1) t d ot by (simp add: extractBody_def)
    have nu: "data \<noteq> JUndefined" using td by auto
    show ?thesis
      using body assms(2) outputProbe_result [of data] choicesProbe_truthy [of data]
        JSON_stringify_isStr [OF nu]
      by (auto simp: andThen_def split: sum.splits option.splits)
  qed
qed

lemma extract_no_probe:
  assumes "truthy resp" and "dataOf resp = Inr data" and "\<not> isStr data"
    and "\<not> truthy (fld data ''output_text'')"
    and "outputProbe data = Inr None" and "choicesProbe data = Inr None"
  shows "extractTextFromApiResponse resp = JSON_stringify data \<and> isStr (JSON_stringify data)"
proof -
  have td: "truthy data"
    using assms(1,2) by (rule dataOf_is_truthy)
  then have nu: "data \<noteq> JUndefined" by auto
  have ot: "getProp data ''output_text'' = Inr (fld data ''output_text'')"
    using td by (rule getProp_truthy)
  have "extractTextFromApiResponse resp = JSON_stringify data"
    using assms ot by (simp add: extractTextFromApiResponse_def extractBody_def)
  then show ?thesis
    using JSON_stringify_isStr [OF nu] by simp
qed






text \<open>
  C8, as the code has it: \<open>extractTextFromApiResponse\<close> never throws, an exception inside
  it gives the empty string. A truthy input in which no probe matches (\<open>data\<close>, that is
  \<open>resp.data || resp\<close>, is no string, \<open>data.output_text\<close> is falsy, and the blocks for
  \<open>output\<close> and \<open>choices\<close> are left without a return) gives the stringified \<open>data\<close>,
  a string. The result is a string except where it is a truthy value handed through as
  it is from \<open>data.output_text\<close>, \<open>data.choices[0].text\<close> or
  \<open>data.choices[0].message.content\<close>.
\<close>

theorem extract_never_throws:
  "(extractBody resp = Inl e \<longrightarrow> extractTextFromApiResponse resp = JStr [])
   \<and> (truthy resp \<and> dataOf resp = Inr data \<and> \<not> isStr data
        \<and> \<not> truthy (fld data ''output_text'')
        \<and> outputProbe data = Inr None \<and> choicesProbe data = Inr None \<longrightarrow>
          extractTextFromApiResponse resp = JSON_stringify data
          \<and> isStr (JSON_stringify data))
   \<and> (\<not> isStr (extractTextFromApiResponse resp) \<longrightarrow>
         truthy (extractTextFromApiResponse resp)
         \<and> (extractTextFromApiResponse resp =
              fld (if truthy (fld resp ''data'') then fld resp ''data'' else resp) ''output_text''
            \<or> extractTextFromApiResponse resp =
              fld (firstOf (fld (if truthy (fld resp ''data'') then fld resp ''data'' else resp)
                              ''choices'')) ''text''
            \<or> extractTextFromApiResponse resp =
              fld (fld (firstOf (fld (if truthy (fld resp ''data'') then fld resp ''data'' else resp)
                                   ''choices'')) ''message'') ''content''))"
proof (intro conjI impI)
  assume "extractBody resp = Inl e"
  then show "extractTextFromApiResponse resp = JStr []"
    by (simp add: extractTextFromApiResponse_def)
next
  assume h: "truthy resp \<and> dataOf resp = Inr data \<and> \<not> isStr data
        \<and> \<not> truthy (fld data ''output_text'')
        \<and> outputProbe data = Inr None \<and> choicesProbe data = Inr None"
  then show "extractTextFromApiResponse resp = JSON_stringify data"
    using extract_no_probe [of resp data] by blast
  show "isStr (JSON_stringify data)"
    using h extract_no_probe [of resp data] by blast
next
  assume ns: "\<not> isStr (extractTextFromApiResponse resp)"
  then obtain r where r: "extractBody resp = Inr r" and eq: "extractTextFromApiResponse resp = r"
    by (cases "extractBody resp") (auto simp: extractTextFromApiResponse_def)
  show "truthy (extractTextFromApiResponse resp)"
    using extractBody_truthy [OF r] ns unfolding eq by blast
  show "extractTextFromApiResponse resp =
              fld (if truthy (fld resp ''data'') then fld resp ''data'' else resp) ''output_text''
            \<or> extractTextFromApiResponse resp =
              fld (firstOf (fld (if truthy (fld resp ''data'') then fld resp ''data'' else resp)
                              ''choices'')) ''text''
            \<or> extractTextFromApiResponse resp =
              fld (fld (firstOf (fld (if truthy (fld resp ''data'') then fld resp ''data'' else resp)
                                   ''choices'')) ''message'') ''content''"
    using extractBody_result [OF r] ns unfolding eq by blast
qed

text \<open>
  An output list holding \<open>null\<close> throws inside and gives the empty string; an object
  under \<open>data\<close> with an empty \<open>output_text\<close> and an empty list of choices gives its
  stringified form; a boolean under \<open>choices[0].text\<close> is handed through.
\<close>

theorem extract_never_throws_witness:
  "extractBody (JObj [(''output'', JArr [JNull])]) = Inl TypeError
   \<and> extractTextFromApiResponse (JObj [(''output'', JArr [JNull])]) = JStr []
   \<and> dataOf (JObj [(''data'', JObj [(''output_text'', JStr []), (''choices'', JArr [])])])
       = Inr (JObj [(''output_text'', JStr []), (''choices'', JArr [])])
   \<and> extractTextFromApiResponse (JObj [(''data'', JObj [(''output_text'', JStr []), (''choices'', JArr [])])])
       = JSON_stringify (JObj [(''output_text'', JStr []), (''choices'', JArr [])])
   \<and> isStr (extractTextFromApiResponse
               (JObj [(''data'', JObj [(''output_text'', JStr []), (''choices'', JArr [])])]))
   \<and> extractTextFromApiResponse (JObj [(''choices'', JArr [JObj [(''text'', JBool True)]])])
       = JBool True"
proof -
  define D where "D = JObj [(''output_text'', JStr []), (''choices'', JArr [])]"
  define X where "X = JObj [(''choices'', JArr [JObj [(''text'', JBool True)]])]"
  have e: "extractBody (JObj [(''output'', JArr [JNull])]) = Inl TypeError"
    by code_simp
  have d: "truthy (JObj [(''data'', D)]) \<and> dataOf (JObj [(''data'', D)]) = Inr D \<and> \<not> isStr D
        \<and> \<not> truthy (fld D ''output_text'')
        \<and> outputProbe D = Inr None \<and> choicesProbe D = Inr None"
    unfolding D_def by code_simp
  have n: "\<not> isStr (extractTextFromApiResponse X)"
    unfolding X_def by code_simp
  have f: "fld X ''data'' = JUndefined
     \<and> fld X ''output_text'' = JUndefined
     \<and> fld (firstOf (fld X ''choices'')) ''text'' = JBool True
     \<and> fld (fld (firstOf (fld X ''choices'')) ''message'') ''content'' = JUndefined"
    unfolding X_def by code_simp
  have 1: "extractTextFromApiResponse (JObj [(''output'', JArr [JNull])]) = JStr []"
    using extract_never_throws [of "JObj [(''output'', JArr [JNull])]" TypeError] e by blast
  have 2: "extractTextFromApiResponse (JObj [(''data'', D)]) = JSON_stringify D
      \<and> isStr (JSON_stringify D)"
    using extract_never_throws [of "JObj [(''data'', D)]" TypeError D] d by blast
  have "\<not> isStr (extractTextFromApiResponse X) \<longrightarrow>
         truthy (extractTextFromApiResponse X)
         \<and> (extractTextFromApiResponse X =
              fld (if truthy (fld X ''data'') then fld X ''data'' else X) ''output_text''
            \<or> extractTextFromApiResponse X =
              fld (firstOf (fld (if truthy (fld X ''data'') then fld X ''data'' else X)
                              ''choices'')) ''text''
            \<or> extractTextFromApiResponse X =
              fld (fld (firstOf (fld (if truthy (fld X ''data'') then fld X ''data'' else X)
                                   ''choices'')) ''message'') ''content'')"
    by (rule conjunct2 [OF conjunct2 [OF extract_never_throws [of X TypeError JNull]]])
  then have "truthy (extractTextFromApiResponse X)
      \<and> (extractTextFromApiResponse X = JUndefined \<or> extractTextFromApiResponse X = JBool True)"
    using n f by auto
  then have 3: "extractTextFromApiResponse X = JBool True"
    by auto
  show ?thesis
    using e d 1 2 3 unfolding X_def D_def by simp
qed

text \<open>The result is not always a string: a number under \<open>output_text\<close> is returned as it is.\<close>

theorem extract_string_counterexample:
  "extractTextFromApiResponse (JObj [(''output_text'', JNum 42)]) = JNum 42
   \<and> \<not> isStr (extractTextFromApiResponse (JObj [(''output_text'', JNum 42)]))
   \<and> extractTextFromApiResponse (JObj [(''data'', JObj [(''output_text'', JNum 42)])]) = JNum 42"
  by code_simp

end
